theory Spec2Isabelle
  imports Complex_Main
begin

section \<open>Python floats\<close>

text \<open>
  Every attribute of \<^verbatim>\<open>Battery\<close> is a Python \<^verbatim>\<open>float\<close>, that is an IEEE 754
  binary64 number. A finite float is a sign, a significand \<open>m\<close> and an exponent \<open>e\<close>, with
  value \<open>(-1)^s * m * 2^e\<close>; the sign is \<open>True\<close> for a negative number, so that
  \<open>Finite True 0 (-1074)\<close> is \<^verbatim>\<open>-0.0\<close>.
\<close>

datatype pyfloat = Finite bool nat int | Infinity bool | NaN

text \<open>
  The binary64 values: 53 bits of significand, exponents from \<open>-1074\<close> to \<open>971\<close>, and one
  representation for each value (a significand below \<open>2^52\<close> only at the least exponent).
\<close>

fun is_float :: "pyfloat \<Rightarrow> bool" where
  "is_float (Finite s m e) =
     (m < 2 ^ 53 \<and> - 1074 \<le> e \<and> e \<le> 971 \<and> (2 ^ 52 \<le> m \<or> e = - 1074))"
| "is_float (Infinity s) = True"
| "is_float NaN = True"

fun is_nan :: "pyfloat \<Rightarrow> bool" where
  "is_nan NaN = True"
| "is_nan (Finite s m e) = False"
| "is_nan (Infinity s) = False"

fun is_finite :: "pyfloat \<Rightarrow> bool" where
  "is_finite (Finite s m e) = True"
| "is_finite (Infinity s) = False"
| "is_finite NaN = False"

fun is_infinite :: "pyfloat \<Rightarrow> bool" where
  "is_infinite (Infinity s) = True"
| "is_infinite (Finite s m e) = False"
| "is_infinite NaN = False"

text \<open>\<^verbatim>\<open>0.0\<close> and \<^verbatim>\<open>-0.0\<close>.\<close>

fun is_zero :: "pyfloat \<Rightarrow> bool" where
  "is_zero (Finite s m e) = (m = 0)"
| "is_zero (Infinity s) = False"
| "is_zero NaN = False"

text \<open>The real number a finite float stands for (\<open>0\<close> for the other two kinds).\<close>

definition mag :: "nat \<Rightarrow> int \<Rightarrow> real" where
  "mag m e = real m * 2 powi e"

fun fval :: "pyfloat \<Rightarrow> real" where
  "fval (Finite s m e) = (if s then - mag m e else mag m e)"
| "fval (Infinity s) = 0"
| "fval NaN = 0"

subsection \<open>Rounding to nearest, ties to even\<close>

fun bit_length :: "nat \<Rightarrow> nat" where
  "bit_length n = (if n = 0 then 0 else Suc (bit_length (n div 2)))"

declare bit_length.simps [simp del]

text \<open>\<open>M / 2^k\<close> rounded to the nearest natural number, a tie to the even one.\<close>

definition round_half_even :: "nat \<Rightarrow> nat \<Rightarrow> nat" where
  "round_half_even M k =
     (let q = M div 2 ^ k; r = M mod 2 ^ k
      in if 2 * r < 2 ^ k \<or> (2 * r = 2 ^ k \<and> even q) then q else q + 1)"

text \<open>
  \<open>M * 2^E\<close> rounded to 53 significant bits, or to a multiple of \<open>2^(-1074)\<close> where that is
  coarser (the subnormal range): \<open>shift M E\<close> is the number of low bits of \<open>M\<close> to drop
  (to add, when negative). The exponent of the result is not bounded above here.
\<close>

definition shift :: "nat \<Rightarrow> int \<Rightarrow> int" where
  "shift M E = max (int (bit_length M) - 53) (- 1074 - E)"

definition round_sig :: "nat \<Rightarrow> int \<Rightarrow> nat \<times> int" where
  "round_sig M E =
     (if M = 0 then (0, - 1074)
      else
        let k = shift M E;
            q = (if 0 \<le> k then round_half_even M (nat k) else M * 2 ^ nat (- k))
        in if q = 2 ^ 53 then (2 ^ 52, E + k + 1) else (q, E + k))"

text \<open>A rounded value of \<open>2^1024\<close> or more overflows to an infinity.\<close>

definition fround :: "bool \<Rightarrow> nat \<Rightarrow> int \<Rightarrow> pyfloat" where
  "fround s M E =
     (case round_sig M E of (q, e) \<Rightarrow> if 971 < e then Infinity s else Finite s q e)"

subsection \<open>The operators \<^verbatim>\<open>*\<close>, \<^verbatim>\<open><=\<close> and \<^verbatim>\<open>==\<close>\<close>

text \<open>
  Python's \<^verbatim>\<open>x * y\<close> on floats never raises: an overflow gives an infinity and
  \<open>0 * inf\<close> gives a NaN.
\<close>

fun fmul :: "pyfloat \<Rightarrow> pyfloat \<Rightarrow> pyfloat" where
  "fmul NaN y = NaN"
| "fmul x NaN = NaN"
| "fmul (Infinity s) (Infinity t) = Infinity (s \<noteq> t)"
| "fmul (Infinity s) (Finite t n f) = (if n = 0 then NaN else Infinity (s \<noteq> t))"
| "fmul (Finite s m e) (Infinity t) = (if m = 0 then NaN else Infinity (s \<noteq> t))"
| "fmul (Finite s m e) (Finite t n f) = fround (s \<noteq> t) (m * n) (e + f)"

definition signed :: "bool \<Rightarrow> nat \<Rightarrow> int" where
  "signed s m = (if s then - int m else int m)"

text \<open>\<^verbatim>\<open>x <= y\<close>: false as soon as one side is a NaN.\<close>

fun fle :: "pyfloat \<Rightarrow> pyfloat \<Rightarrow> bool" where
  "fle (Finite s m e) (Finite t n f) =
     (let d = min e f in signed s m * 2 ^ nat (e - d) \<le> signed t n * 2 ^ nat (f - d))"
| "fle (Finite s m e) (Infinity t) = (\<not> t)"
| "fle (Infinity s) (Finite t n f) = s"
| "fle (Infinity s) (Infinity t) = (s \<or> \<not> t)"
| "fle NaN y = False"
| "fle x NaN = False"

text \<open>\<^verbatim>\<open>x == y\<close>: \<^verbatim>\<open>-0.0 == 0.0\<close> holds, and a NaN equals nothing.\<close>

fun feq :: "pyfloat \<Rightarrow> pyfloat \<Rightarrow> bool" where
  "feq (Finite s m e) (Finite t n f) =
     (let d = min e f in signed s m * 2 ^ nat (e - d) = signed t n * 2 ^ nat (f - d))"
| "feq (Infinity s) (Infinity t) = (s = t)"
| "feq x y = False"

subsection \<open>The literals of the source and of the examples\<close>

text \<open>Each literal is the float Python reads it as: the binary64 value nearest the decimal.\<close>

definition lit_0_0 :: pyfloat where
  "lit_0_0 = Finite False 0 (- 1074)"

definition lit_1_0 :: pyfloat where
  "lit_1_0 = Finite False 4503599627370496 (- 52)"

definition lit_0_95 :: pyfloat where
  "lit_0_95 = Finite False 8556839292003942 (- 53)"

definition lit_0_1 :: pyfloat where
  "lit_0_1 = Finite False 7205759403792794 (- 56)"

definition lit_0_97 :: pyfloat where
  "lit_0_97 = Finite False 8736983277098762 (- 53)"

definition lit_100_0 :: pyfloat where
  "lit_100_0 = Finite False 7036874417766400 (- 46)"

definition lit_10_0 :: pyfloat where
  "lit_10_0 = Finite False 5629499534213120 (- 49)"

definition lit_97_0 :: pyfloat where
  "lit_97_0 = Finite False 6825768185233408 (- 46)"

text \<open>\<^verbatim>\<open>-x\<close> and \<^verbatim>\<open>float('inf')\<close>.\<close>

fun fneg :: "pyfloat \<Rightarrow> pyfloat" where
  "fneg (Finite s m e) = Finite (\<not> s) m e"
| "fneg (Infinity s) = Infinity (\<not> s)"
| "fneg NaN = NaN"

definition float_inf :: pyfloat where
  "float_inf = Infinity False"

section \<open>The class \<^verbatim>\<open>Battery\<close>\<close>

record Battery =
  current_charge :: pyfloat
  capacity :: pyfloat
  charging_power_limit :: pyfloat
  discharging_power_limit :: pyfloat
  charging_efficiency :: pyfloat
  discharging_efficiency :: pyfloat
  min_depth_of_discharge :: pyfloat
  max_depth_of_discharge :: pyfloat

text \<open>A keyword argument is \<open>None\<close> when the caller leaves it out, and takes its default.\<close>

fun kwarg :: "pyfloat \<Rightarrow> pyfloat option \<Rightarrow> pyfloat" where
  "kwarg d None = d"
| "kwarg d (Some v) = v"

text \<open>\<^verbatim>\<open>Battery.__init__\<close>: the eight assignments, in the order of the source.\<close>

definition Battery_init ::
  "pyfloat option \<Rightarrow> pyfloat option \<Rightarrow> pyfloat option \<Rightarrow> pyfloat option \<Rightarrow>
   pyfloat option \<Rightarrow> pyfloat option \<Rightarrow> pyfloat option \<Rightarrow> pyfloat option \<Rightarrow> Battery" where
  "Battery_init current_charge_kw capacity_kw charging_power_limit_kw
     discharging_power_limit_kw charging_efficiency_kw discharging_efficiency_kw
     min_depth_of_discharge_kw max_depth_of_discharge_kw =
     (let current_charge_arg = kwarg lit_0_0 current_charge_kw;
          capacity_arg = kwarg lit_0_0 capacity_kw;
          charging_power_limit_arg = kwarg lit_1_0 charging_power_limit_kw;
          discharging_power_limit_arg = kwarg lit_1_0 discharging_power_limit_kw;
          charging_efficiency_arg = kwarg lit_0_95 charging_efficiency_kw;
          discharging_efficiency_arg = kwarg lit_0_95 discharging_efficiency_kw;
          min_depth_of_discharge_arg = kwarg lit_0_1 min_depth_of_discharge_kw;
          max_depth_of_discharge_arg = kwarg lit_0_97 max_depth_of_discharge_kw
      in \<lparr> current_charge = current_charge_arg,
           capacity = capacity_arg,
           charging_power_limit = charging_power_limit_arg,
           discharging_power_limit = discharging_power_limit_arg,
           charging_efficiency = charging_efficiency_arg,
           discharging_efficiency = discharging_efficiency_arg,
           min_depth_of_discharge = fmul min_depth_of_discharge_arg capacity_arg,
           max_depth_of_discharge = fmul max_depth_of_discharge_arg capacity_arg \<rparr>)"

text \<open>
  \<^verbatim>\<open>Battery.get_parameters\<close>: the dict literal, as the list of its items in insertion
  order, together with the object after the call. The body assigns to no attribute.
\<close>

definition get_parameters :: "Battery \<Rightarrow> (string \<times> pyfloat) list \<times> Battery" where
  "get_parameters self =
     ([(''current_charge'', current_charge self),
       (''capacity'', capacity self),
       (''charging_power_limit'', charging_power_limit self),
       (''discharging_power_limit'', discharging_power_limit self),
       (''charging_efficiency'', charging_efficiency self),
       (''discharging_efficiency'', discharging_efficiency self),
       (''min_depth_of_discharge'', min_depth_of_discharge self),
       (''max_depth_of_discharge'', max_depth_of_discharge self)], self)"

text \<open>
  The attributes are public: a caller may assign to any of them
  (\<^verbatim>\<open>battery.current_charge = v\<close>).
\<close>

datatype attr =
  Current_charge | Capacity | Charging_power_limit | Discharging_power_limit
  | Charging_efficiency | Discharging_efficiency
  | Min_depth_of_discharge | Max_depth_of_discharge

fun attr_name :: "attr \<Rightarrow> string" where
  "attr_name Current_charge = ''current_charge''"
| "attr_name Capacity = ''capacity''"
| "attr_name Charging_power_limit = ''charging_power_limit''"
| "attr_name Discharging_power_limit = ''discharging_power_limit''"
| "attr_name Charging_efficiency = ''charging_efficiency''"
| "attr_name Discharging_efficiency = ''discharging_efficiency''"
| "attr_name Min_depth_of_discharge = ''min_depth_of_discharge''"
| "attr_name Max_depth_of_discharge = ''max_depth_of_discharge''"

fun set_attr :: "attr \<Rightarrow> pyfloat \<Rightarrow> Battery \<Rightarrow> Battery" where
  "set_attr Current_charge v self = self\<lparr>current_charge := v\<rparr>"
| "set_attr Capacity v self = self\<lparr>capacity := v\<rparr>"
| "set_attr Charging_power_limit v self = self\<lparr>charging_power_limit := v\<rparr>"
| "set_attr Discharging_power_limit v self = self\<lparr>discharging_power_limit := v\<rparr>"
| "set_attr Charging_efficiency v self = self\<lparr>charging_efficiency := v\<rparr>"
| "set_attr Discharging_efficiency v self = self\<lparr>discharging_efficiency := v\<rparr>"
| "set_attr Min_depth_of_discharge v self = self\<lparr>min_depth_of_discharge := v\<rparr>"
| "set_attr Max_depth_of_discharge v self = self\<lparr>max_depth_of_discharge := v\<rparr>"

fun get_attr :: "attr \<Rightarrow> Battery \<Rightarrow> pyfloat" where
  "get_attr Current_charge self = current_charge self"
| "get_attr Capacity self = capacity self"
| "get_attr Charging_power_limit self = charging_power_limit self"
| "get_attr Discharging_power_limit self = discharging_power_limit self"
| "get_attr Charging_efficiency self = charging_efficiency self"
| "get_attr Discharging_efficiency self = discharging_efficiency self"
| "get_attr Min_depth_of_discharge self = min_depth_of_discharge self"
| "get_attr Max_depth_of_discharge self = max_depth_of_discharge self"

text \<open>The ordering of the two stored bounds, with Python's \<^verbatim>\<open><=\<close>.\<close>

definition dod_ordered :: "Battery \<Rightarrow> bool" where
  "dod_ordered self = fle (min_depth_of_discharge self) (max_depth_of_discharge self)"

section \<open>Evaluating the float operations\<close>

lemma bit_length_numeral:
  "bit_length 0 = 0"
  "bit_length (Suc 0) = 1"
  "bit_length (numeral (Num.Bit0 k)) = Suc (bit_length (numeral k))"
  "bit_length (numeral (Num.Bit1 k)) = Suc (bit_length (numeral k))"
proof -
  show "bit_length 0 = 0"
    by (simp add: bit_length.simps)
  show "bit_length (Suc 0) = 1"
    by (subst bit_length.simps) (simp add: bit_length.simps [of 0])
  have "numeral (Num.Bit0 k) div 2 = (numeral k :: nat)"
    by simp
  then show "bit_length (numeral (Num.Bit0 k)) = Suc (bit_length (numeral k))"
    by (simp add: bit_length.simps [of "numeral (Num.Bit0 k)"])
  have "numeral (Num.Bit1 k) div 2 = (numeral k :: nat)"
    by simp
  then show "bit_length (numeral (Num.Bit1 k)) = Suc (bit_length (numeral k))"
    by (simp add: bit_length.simps [of "numeral (Num.Bit1 k)"])
qed

lemmas float_eval =
  bit_length_numeral fround_def round_sig_def shift_def round_half_even_def Let_def signed_def

lemmas literal_defs =
  lit_0_0_def lit_1_0_def lit_0_95_def lit_0_1_def lit_0_97_def lit_100_0_def lit_10_0_def
  lit_97_0_def float_inf_def

text \<open>
  Each literal is a binary64 value and lies within half a unit in the last place of the
  decimal it is written as.
\<close>

lemma literals_are_floats:
  "is_float lit_0_0" "is_float lit_1_0" "is_float lit_0_95" "is_float lit_0_1"
  "is_float lit_0_97" "is_float lit_100_0" "is_float lit_10_0" "is_float lit_97_0"
  by (simp_all add: literal_defs)

lemma literals_nearest:
  "fval lit_0_0 = 0" "fval lit_1_0 = 1" "fval lit_100_0 = 100" "fval lit_10_0 = 10"
  "fval lit_97_0 = 97"
  "\<bar>fval lit_0_95 - 95 / 100\<bar> * 2 \<le> 2 powi (- 53)"
  "\<bar>fval lit_0_1 - 1 / 10\<bar> * 2 \<le> 2 powi (- 56)"
  "\<bar>fval lit_0_97 - 97 / 100\<bar> * 2 \<le> 2 powi (- 53)"
  by (simp_all add: literal_defs mag_def power_int_minus)

lemma fmul_zero_capacity_defaults:
  "fmul lit_0_1 lit_0_0 = lit_0_0" "fmul lit_0_97 lit_0_0 = lit_0_0"
  by (simp_all add: float_eval literal_defs)

lemma fmul_example_100:
  "fmul lit_0_1 lit_100_0 = lit_10_0" "fmul lit_0_97 lit_100_0 = lit_97_0"
  by (simp_all add: float_eval literal_defs)


lemma fmul_example_neg_100:
  "fmul lit_0_1 (fneg lit_100_0) = fneg lit_10_0" "fmul lit_0_97 (fneg lit_100_0) = fneg lit_97_0"
  by (simp_all add: float_eval literal_defs)

lemma fmul_example_nan:
  "fmul float_inf lit_0_0 = NaN" "fmul lit_1_0 lit_0_0 = lit_0_0"
  by (simp_all add: float_eval literal_defs)

section \<open>Rounding gives a nearest float\<close>

text \<open>
  \<open>round_sig\<close> returns a significand and an exponent in the form \<open>is_float\<close> asks for,
  and no other significand of 53 bits with an exponent of at least \<open>-1074\<close> is nearer
  the exact value \<open>M * 2^E\<close>.
\<close>

lemma bit_length_upper: "n < 2 ^ bit_length n"
proof (induction n rule: bit_length.induct)
  case (1 n)
  show ?case
  proof (cases "n = 0")
    case True
    then show ?thesis by simp
  next
    case False
    with 1 have "n div 2 < 2 ^ bit_length (n div 2)" by simp
    then have "n < 2 * 2 ^ bit_length (n div 2)" by linarith
    then show ?thesis using False by (subst bit_length.simps) simp
  qed
qed

lemma bit_length_pos: "0 < n \<Longrightarrow> 0 < bit_length n"
  by (subst bit_length.simps) simp

lemma bit_length_lower: "0 < n \<Longrightarrow> 2 ^ (bit_length n - 1) \<le> n"
proof (induction n rule: bit_length.induct)
  case (1 n)
  then have n: "n \<noteq> 0" by simp
  have bl: "bit_length n = Suc (bit_length (n div 2))"
    using n by (subst bit_length.simps) simp
  show ?case
  proof (cases "n div 2 = 0")
    case True
    then have "bit_length (n div 2) = 0" by (simp add: bit_length.simps)
    with bl 1 show ?thesis by simp
  next
    case False
    then have pos: "0 < n div 2" by simp
    with 1 n have "2 ^ (bit_length (n div 2) - 1) \<le> n div 2" by simp
    moreover have "(2::nat) ^ bit_length (n div 2) = 2 * 2 ^ (bit_length (n div 2) - 1)"
      using bit_length_pos [OF pos] by (cases "bit_length (n div 2)") simp_all
    ultimately have "2 ^ bit_length (n div 2) \<le> n" by linarith
    with bl show ?thesis by simp
  qed
qed

lemma pow2_split: "a \<le> b \<Longrightarrow> (2::real) powi b = 2 ^ nat (b - a) * 2 powi a"
proof -
  assume ab: "a \<le> b"
  have "(2::real) powi b = 2 powi ((b - a) + a)" by simp
  also have "\<dots> = 2 powi (b - a) * 2 powi a" by (rule power_int_add) simp
  also have "(2::real) powi (b - a) = 2 ^ nat (b - a)"
    using ab by (simp add: power_int_nonneg_exp)
  finally show ?thesis .
qed

lemma mag_shift: "0 \<le> k \<Longrightarrow> mag (m * 2 ^ nat k) e = mag m (e + k)"
proof -
  assume k: "0 \<le> k"
  have "(2::real) powi (e + k) = 2 ^ nat k * 2 powi e"
    using pow2_split [of e "e + k"] k by simp
  then show ?thesis by (simp add: mag_def)
qed

lemma div_pow2_lower:
  assumes "0 < M" "int (bit_length M) - 53 = k" "0 \<le> k"
  shows "2 ^ 52 \<le> M div 2 ^ nat k"
proof -
  have "bit_length M - 1 = 52 + nat k" using assms by linarith
  with bit_length_lower [OF assms(1)] have "2 ^ (52 + nat k) \<le> M" by simp
  then have "2 ^ 52 * 2 ^ nat k \<le> M" by (simp add: power_add)
  then show ?thesis by (simp add: less_eq_div_iff_mult_less_eq)
qed

lemma div_pow2_upper:
  assumes "int (bit_length M) - 53 \<le> k" "0 \<le> k"
  shows "M div 2 ^ nat k < 2 ^ 53"
proof -
  have "bit_length M \<le> 53 + nat k" using assms by linarith
  then have "(2::nat) ^ bit_length M \<le> 2 ^ (53 + nat k)"
    by (rule power_increasing) simp
  with bit_length_upper [of M] have "M < 2 ^ 53 * 2 ^ nat k" by (simp add: power_add)
  then show ?thesis by (simp add: div_less_iff_less_mult)
qed

lemma round_half_even_cases:
  "round_half_even M k = M div 2 ^ k \<or> round_half_even M k = M div 2 ^ k + 1"
  by (simp add: round_half_even_def Let_def)

text \<open>No natural number is nearer \<open>M / 2^k\<close> than \<open>round_half_even M k\<close>.\<close>

lemma round_half_even_nearest:
  "\<bar>real M - real (round_half_even M k) * 2 ^ k\<bar> \<le> \<bar>real M - real j * 2 ^ k\<bar>"
proof -
  define P :: real where "P = 2 ^ k"
  define q0 where "q0 = M div 2 ^ k"
  define r where "r = M mod 2 ^ k"
  define q1 where "q1 = round_half_even M k"
  have "M = q0 * 2 ^ k + r"
    using div_mult_mod_eq [of M "2 ^ k"] by (simp add: q0_def r_def)
  then have "real M = real (q0 * 2 ^ k + r)" by simp
  then have M: "real M = real q0 * P + real r" by (simp add: P_def)
  have "r < 2 ^ k" by (simp add: r_def)
  then have "real r < real (2 ^ k)" by (rule of_nat_less_iff [THEN iffD2])
  then have rP: "real r < P" by (simp add: P_def)
  have le_real: "2 * real a \<le> P" if "2 * a \<le> 2 ^ k" for a :: nat
  proof -
    from that have "real (2 * a) \<le> real (2 ^ k)" by (rule of_nat_le_iff [THEN iffD2])
    then show ?thesis by (simp add: P_def)
  qed
  have ge_real: "P \<le> 2 * real a" if "2 ^ k \<le> 2 * a" for a :: nat
  proof -
    from that have "real (2 ^ k) \<le> real (2 * a)" by (rule of_nat_le_iff [THEN iffD2])
    then show ?thesis by (simp add: P_def)
  qed
  have "(q1 = q0 \<and> 2 * r \<le> 2 ^ k) \<or> (q1 = q0 + 1 \<and> 2 ^ k \<le> 2 * r)"
    by (auto simp add: q1_def round_half_even_def Let_def q0_def r_def)
  then have c: "(real q1 = real q0 \<and> 2 * real r \<le> P) \<or> (real q1 = real q0 + 1 \<and> P \<le> 2 * real r)"
    using le_real ge_real by auto
  have P0: "0 \<le> P" by (simp add: P_def)
  have "j \<le> q0 \<or> q0 + 1 \<le> j" by linarith
  then have "real j \<le> real q0 \<or> real q0 + 1 \<le> real j" by auto
  then have j: "real j * P \<le> real q0 * P \<or> (real q0 + 1) * P \<le> real j * P"
    using P0 by (auto intro: mult_right_mono)
  have ex: "(real q0 + 1) * P = real q0 * P + P" by (simp add: algebra_simps)
  have "\<bar>real M - real q1 * P\<bar> \<le> \<bar>real M - real j * P\<bar>"
    using c
  proof (elim disjE conjE)
    assume a: "real q1 = real q0" "2 * real r \<le> P"
    show ?thesis unfolding a(1) using M j ex rP a(2) by linarith
  next
    assume a: "real q1 = real q0 + 1" "P \<le> 2 * real r"
    show ?thesis unfolding a(1) using M j ex rP a(2) by linarith
  qed
  then show ?thesis by (simp add: q1_def P_def)
qed

lemma renorm_mag:
  "(if q = 2 ^ 53 then (2 ^ 52, e + 1) else (q, e)) = (q', e') \<Longrightarrow> mag q' e' = mag q e"
proof -
  have "(2::real) powi (e + 1) = 2 powi e * 2" by (rule power_int_add_1) simp
  then show "(if q = 2 ^ 53 then (2 ^ 52, e + 1) else (q, e)) = (q', e') \<Longrightarrow> mag q' e' = mag q e"
    by (auto simp add: mag_def split: if_splits)
qed

lemma round_sig_zero: "round_sig 0 E = (0, - 1074)"
  by (simp add: round_sig_def)

lemma round_sig_mag:
  assumes "M \<noteq> 0" "round_sig M E = (q, e)"
  shows "mag q e =
    mag (if 0 \<le> shift M E then round_half_even M (nat (shift M E))
         else M * 2 ^ nat (- shift M E)) (E + shift M E)"
proof -
  define Q where
    "Q = (if 0 \<le> shift M E then round_half_even M (nat (shift M E))
          else M * 2 ^ nat (- shift M E))"
  have "(if Q = 2 ^ 53 then (2 ^ 52, E + shift M E + 1) else (Q, E + shift M E)) = (q, e)"
    unfolding Q_def using assms by (simp only: round_sig_def Let_def if_False)
  then have "mag q e = mag Q (E + shift M E)" by (rule renorm_mag)
  then show ?thesis by (simp add: Q_def)
qed

lemma round_sig_exact:
  assumes "M \<noteq> 0" "round_sig M E = (q, e)" "shift M E < 0"
  shows "mag q e = mag M E"
proof -
  have "mag q e = mag (M * 2 ^ nat (- shift M E)) (E + shift M E)"
    using round_sig_mag [OF assms(1,2)] assms(3) by simp
  also have "\<dots> = mag M (E + shift M E + (- shift M E))"
    using assms(3) mag_shift [of "- shift M E" M "E + shift M E"] by simp
  finally show ?thesis by simp
qed

lemma round_sig_inexact:
  assumes "M \<noteq> 0" "round_sig M E = (q, e)" "0 \<le> shift M E"
  shows "mag q e = real (round_half_even M (nat (shift M E))) * 2 ^ nat (shift M E) * 2 powi E"
proof -
  have "mag q e = mag (round_half_even M (nat (shift M E))) (E + shift M E)"
    using round_sig_mag [OF assms(1,2)] assms(3) by simp
  also have "\<dots> = mag (round_half_even M (nat (shift M E)) * 2 ^ nat (shift M E)) E"
    using mag_shift [OF assms(3)] by simp
  finally show ?thesis by (simp add: mag_def)
qed

text \<open>The result of \<open>round_sig\<close> has the form of a float, but for the upper bound on its exponent.\<close>

lemma round_sig_canonical:
  assumes "round_sig M E = (q, e)"
  shows "q < 2 ^ 53 \<and> - 1074 \<le> e \<and> (2 ^ 52 \<le> q \<or> e = - 1074)"
proof (cases "M = 0")
  case True
  with assms show ?thesis by (simp add: round_sig_def)
next
  case False
  define k where "k = shift M E"
  have k1: "int (bit_length M) - 53 \<le> k" and k2: "- 1074 - E \<le> k"
    and k3: "k = int (bit_length M) - 53 \<or> k = - 1074 - E"
    by (auto simp add: k_def shift_def)
  define Q where
    "Q = (if 0 \<le> k then round_half_even M (nat k) else M * 2 ^ nat (- k))"
  have r: "(if Q = 2 ^ 53 then (2 ^ 52, E + k + 1) else (Q, E + k)) = (q, e)"
    unfolding Q_def k_def using assms False by (simp only: round_sig_def Let_def if_False)
  have Mpos: "0 < M" using False by simp
  have Qle: "Q \<le> 2 ^ 53"
  proof (cases "0 \<le> k")
    case True
    have "M div 2 ^ nat k < 2 ^ 53" using k1 True by (rule div_pow2_upper)
    then show ?thesis
      using True round_half_even_cases [of M "nat k"] by (auto simp add: Q_def)
  next
    case False
    then have "bit_length M + nat (- k) \<le> 53" using k1 by linarith
    then have le: "(2::nat) ^ (bit_length M + nat (- k)) \<le> 2 ^ 53"
      by (rule power_increasing) simp
    have "M * 2 ^ nat (- k) < 2 ^ bit_length M * 2 ^ nat (- k)"
      using bit_length_upper [of M] by simp
    also have "\<dots> = 2 ^ (bit_length M + nat (- k))" by (simp add: power_add)
    also note le
    finally show ?thesis using False by (simp add: Q_def)
  qed
  have Qge: "2 ^ 52 \<le> Q" if eq: "k = int (bit_length M) - 53"
  proof (cases "0 \<le> k")
    case True
    have "2 ^ 52 \<le> M div 2 ^ nat k" using Mpos eq [symmetric] True by (rule div_pow2_lower)
    then show ?thesis
      using True round_half_even_cases [of M "nat k"] by (auto simp add: Q_def)
  next
    case False
    then have "bit_length M - 1 + nat (- k) = 52"
      using eq bit_length_pos [OF Mpos] by linarith
    then have "(2::nat) ^ 52 = 2 ^ (bit_length M - 1) * 2 ^ nat (- k)"
      by (simp add: power_add [symmetric])
    also have "\<dots> \<le> M * 2 ^ nat (- k)"
      using bit_length_lower [OF Mpos] by simp
    finally show ?thesis using False by (simp add: Q_def)
  qed
  show ?thesis
  proof (cases "Q = 2 ^ 53")
    case True
    with r have "q = 2 ^ 52" "e = E + k + 1" by simp_all
    with k2 show ?thesis by simp
  next
    case False
    with r have "q = Q" "e = E + k" by simp_all
    with False Qle Qge k2 k3 show ?thesis by auto
  qed
qed

lemma mag_nonneg: "0 \<le> mag m e"
  by (simp add: mag_def)

lemma mag_mono: "m \<le> n \<Longrightarrow> mag m e \<le> mag n e"
  by (simp add: mag_def mult_right_mono)

lemma mag_less_pow: "m < 2 ^ 53 \<Longrightarrow> mag m e < 2 powi (e + 53)"
proof -
  assume "m < 2 ^ 53"
  then have "real m < real (2 ^ 53)" by (rule of_nat_less_iff [THEN iffD2])
  then have "real m * 2 powi e < 2 ^ 53 * 2 powi e" by simp
  also have "\<dots> = 2 powi (e + 53)" using pow2_split [of e "e + 53"] by simp
  finally show ?thesis by (simp add: mag_def)
qed

text \<open>
  No significand of 53 bits with an exponent of at least \<open>-1074\<close> is nearer \<open>M * 2^E\<close>
  than the result of \<open>round_sig\<close>.
\<close>

lemma round_sig_nearest:
  assumes rs: "round_sig M E = (q, e)" and m': "m' < 2 ^ 53" and e': "- 1074 \<le> e'"
  shows "\<bar>mag M E - mag q e\<bar> \<le> \<bar>mag M E - mag m' e'\<bar>"
proof (cases "M = 0")
  case True
  with rs show ?thesis by (simp add: round_sig_def mag_def)
next
  case False
  define k where "k = shift M E"
  show ?thesis
  proof (cases "0 \<le> k")
    case neg: False
    then have "mag q e = mag M E"
      using round_sig_exact [OF False rs] by (simp add: k_def)
    then show ?thesis by simp
  next
    case True
    define q1 where "q1 = round_half_even M (nat k)"
    define q0 where "q0 = M div 2 ^ nat k"
    define u :: real where "u = 2 powi E"
    have u: "0 < u" by (simp add: u_def)
    have res: "mag q e = real q1 * 2 ^ nat k * u"
      using round_sig_inexact [OF False rs] True by (simp add: k_def q1_def u_def)
    have x: "mag M E = real M * u" by (simp add: mag_def u_def)
    have near: "\<bar>real M - real q1 * 2 ^ nat k\<bar> \<le> \<bar>real M - real j * 2 ^ nat k\<bar>" for j
      unfolding q1_def by (rule round_half_even_nearest)
    have scale: "\<bar>real M * u - a * u\<bar> = \<bar>real M - a\<bar> * u" for a
    proof -
      have "real M * u - a * u = (real M - a) * u" by (simp add: algebra_simps)
      then show ?thesis using u by (simp add: abs_mult)
    qed
    have near_u: "\<bar>mag M E - mag q e\<bar> \<le> \<bar>mag M E - real j * 2 ^ nat k * u\<bar>" for j
      unfolding res x scale using near [of j] u by (simp add: mult_right_mono)
    show ?thesis
    proof (cases "E + k \<le> e'")
      case ge: True
      have "(2::real) powi e' = 2 ^ nat (e' - (E + k)) * 2 powi (E + k)"
        using ge by (rule pow2_split)
      also have "(2::real) powi (E + k) = 2 ^ nat k * 2 powi E"
        using pow2_split [of E "E + k"] True by simp
      finally have "mag m' e' = real (m' * 2 ^ nat (e' - (E + k))) * 2 ^ nat k * u"
        by (simp add: mag_def u_def)
      then show ?thesis using near_u [of "m' * 2 ^ nat (e' - (E + k))"] by simp
    next
      case lt: False
      then have "- 1074 - E < k" using e' by linarith
      then have keq: "int (bit_length M) - 53 = k" by (simp add: k_def shift_def max_def split: if_splits)
      have "2 ^ 52 \<le> q0" unfolding q0_def using False keq True by (intro div_pow2_lower) simp_all
      then have "real (2 ^ 52) \<le> real q0" by (rule of_nat_le_iff [THEN iffD2])
      then have q0: "2 ^ 52 \<le> real q0" by simp
      have "mag m' e' < 2 powi (e' + 53)" using m' by (rule mag_less_pow)
      also have "\<dots> \<le> 2 powi (E + k + 52)"
        using lt by (intro power_int_increasing) simp_all
      also have "\<dots> = 2 ^ 52 * (2 ^ nat k * u)"
      proof -
        have "(2::real) powi (E + k + 52) = 2 ^ nat (k + 52) * 2 powi E"
          using pow2_split [of E "E + k + 52"] True by (simp add: add.assoc)
        also have "nat (k + 52) = 52 + nat k" using True by linarith
        finally show ?thesis by (simp add: power_add u_def)
      qed
      also have "\<dots> \<le> real q0 * (2 ^ nat k * u)"
        using q0 u by (intro mult_right_mono) simp_all
      finally have below: "mag m' e' < real q0 * 2 ^ nat k * u" by (simp add: mult.assoc)
      have "q0 * 2 ^ nat k \<le> M" by (simp add: q0_def)
      then have "real (q0 * 2 ^ nat k) \<le> real M" by (rule of_nat_le_iff [THEN iffD2])
      then have "real q0 * 2 ^ nat k * u \<le> real M * u" using u by simp
      with near_u [of q0] below x show ?thesis by linarith
    qed
  qed
qed

section \<open>Rounding and multiplication are monotone\<close>

text \<open>Of two exact values, the larger does not round to the smaller result.\<close>

lemma round_sig_mono_strict:
  assumes lt: "mag M1 E1 < mag M2 E2"
    and r1: "round_sig M1 E1 = (q1, e1)" and r2: "round_sig M2 E2 = (q2, e2)"
  shows "mag q1 e1 \<le> mag q2 e2"
proof (rule ccontr)
  assume "\<not> mag q1 e1 \<le> mag q2 e2"
  then have gt: "mag q2 e2 < mag q1 e1" by simp
  have c1: "q1 < 2 ^ 53" "- 1074 \<le> e1" using round_sig_canonical [OF r1] by simp_all
  have c2: "q2 < 2 ^ 53" "- 1074 \<le> e2" using round_sig_canonical [OF r2] by simp_all
  have "\<bar>mag M1 E1 - mag q1 e1\<bar> \<le> \<bar>mag M1 E1 - mag q2 e2\<bar>"
    using r1 c2 by (rule round_sig_nearest)
  moreover have "\<bar>mag M2 E2 - mag q2 e2\<bar> \<le> \<bar>mag M2 E2 - mag q1 e1\<bar>"
    using r2 c1 by (rule round_sig_nearest)
  ultimately show False using lt gt by linarith
qed

text \<open>The overflow test of \<open>fround\<close> compares the rounded value with \<open>2^1024\<close>.\<close>

lemma canonical_overflow:
  assumes "q < 2 ^ 53" "2 ^ 52 \<le> q \<or> e = - 1074"
  shows "971 < e \<longleftrightarrow> 2 powi 1024 \<le> mag q e"
proof
  assume big: "971 < e"
  with assms(2) have "2 ^ 52 \<le> q" by auto
  then have "real (2 ^ 52) \<le> real q" by (rule of_nat_le_iff [THEN iffD2])
  then have q: "2 ^ 52 \<le> real q" by simp
  have "(2::real) powi 1024 \<le> 2 powi (e + 52)"
    using big by (intro power_int_increasing) simp_all
  also have "\<dots> = 2 ^ 52 * 2 powi e" using pow2_split [of e "e + 52"] by simp
  also have "\<dots> \<le> real q * 2 powi e" using q by (intro mult_right_mono) simp_all
  finally show "2 powi 1024 \<le> mag q e" by (simp add: mag_def)
next
  assume big: "2 powi 1024 \<le> mag q e"
  show "971 < e"
  proof (rule ccontr)
    assume "\<not> 971 < e"
    then have "(2::real) powi (e + 53) \<le> 2 powi 1024"
      by (intro power_int_increasing) simp_all
    with mag_less_pow [OF assms(1), of e] big show False by linarith
  qed
qed

lemma fval_signed: "fval (Finite s m e) = of_int (signed s m) * 2 powi e"
  by (simp add: signed_def mag_def)

lemma signed_scale:
  assumes "d \<le> e"
  shows "real_of_int (signed s m) * 2 powi e = real_of_int (signed s m * 2 ^ nat (e - d)) * 2 powi d"
  using pow2_split [OF assms] by simp

text \<open>On finite floats \<^verbatim>\<open><=\<close> is the order of the values.\<close>

lemma fle_Finite_iff:
  "fle (Finite s m e) (Finite t n f) \<longleftrightarrow> fval (Finite s m e) \<le> fval (Finite t n f)"
proof -
  define d where "d = min e f"
  have d: "d \<le> e" "d \<le> f" by (simp_all add: d_def)
  define a where "a = signed s m * 2 ^ nat (e - d)"
  define b where "b = signed t n * 2 ^ nat (f - d)"
  have "fval (Finite s m e) = real_of_int a * 2 powi d"
    unfolding fval_signed a_def using d(1) by (rule signed_scale)
  moreover have "fval (Finite t n f) = real_of_int b * 2 powi d"
    unfolding fval_signed b_def using d(2) by (rule signed_scale)
  moreover have "real_of_int a * 2 powi d \<le> real_of_int b * 2 powi d \<longleftrightarrow> a \<le> b"
    by simp
  moreover have "fle (Finite s m e) (Finite t n f) \<longleftrightarrow> a \<le> b"
    by (simp add: a_def b_def d_def Let_def)
  ultimately show ?thesis by simp
qed

lemma fround_cases:
  obtains q e where "round_sig M E = (q, e)" "971 < e" "fround s M E = Infinity s"
  | q e where "round_sig M E = (q, e)" "\<not> 971 < e" "fround s M E = Finite s q e"
  by (cases "round_sig M E") (auto simp add: fround_def)

lemma fround_zero: "fround s 0 E = Finite s 0 (- 1074)"
  by (simp add: fround_def round_sig_def)

lemma fround_not_nan: "\<not> is_nan (fround s M E)"
  by (rule fround_cases [of M E s]) simp_all

lemma fle_neg_infinity: "\<not> is_nan x \<Longrightarrow> fle (Infinity True) x"
  by (cases x) simp_all

lemma fle_pos_infinity: "\<not> is_nan x \<Longrightarrow> fle x (Infinity False)"
  by (cases x) simp_all

lemma fround_neg_le_pos: "fle (fround True M1 E1) (fround False M2 E2)"
proof (rule fround_cases [of M1 E1 True]; rule fround_cases [of M2 E2 False])
  fix q e q' e'
  assume "fround True M1 E1 = Finite True q e" "fround False M2 E2 = Finite False q' e'"
  moreover have "- mag q e \<le> mag q' e'"
    using mag_nonneg [of q e] mag_nonneg [of q' e'] by linarith
  ultimately show ?thesis by (simp add: fle_Finite_iff del: fle.simps(1))
qed simp_all

lemma fround_mono:
  assumes "mag M1 E1 < mag M2 E2 \<or> (M1 = M2 \<and> E1 = E2)"
  shows "fle (fround False M1 E1) (fround False M2 E2)"
    and "fle (fround True M2 E2) (fround True M1 E1)"
proof -
  obtain q1 e1 where r1: "round_sig M1 E1 = (q1, e1)" by (cases "round_sig M1 E1")
  obtain q2 e2 where r2: "round_sig M2 E2 = (q2, e2)" by (cases "round_sig M2 E2")
  have m: "mag q1 e1 \<le> mag q2 e2"
    using assms
  proof
    assume "mag M1 E1 < mag M2 E2"
    then show ?thesis using r1 r2 by (rule round_sig_mono_strict)
  next
    assume "M1 = M2 \<and> E1 = E2"
    with r1 r2 show ?thesis by simp
  qed
  have o1: "971 < e1 \<longleftrightarrow> 2 powi 1024 \<le> mag q1 e1"
    using round_sig_canonical [OF r1] by (intro canonical_overflow) simp_all
  have o2: "971 < e2 \<longleftrightarrow> 2 powi 1024 \<le> mag q2 e2"
    using round_sig_canonical [OF r2] by (intro canonical_overflow) simp_all
  have imp: "971 < e1 \<Longrightarrow> 971 < e2" using o1 o2 m by linarith
  show "fle (fround False M1 E1) (fround False M2 E2)"
    using m imp by (auto simp add: fround_def r1 r2 fle_Finite_iff simp del: fle.simps(1))
  show "fle (fround True M2 E2) (fround True M1 E1)"
    using m imp by (auto simp add: fround_def r1 r2 fle_Finite_iff simp del: fle.simps(1))
qed

lemma mag_mult: "mag (m * n) (e + f) = mag m e * mag n f"
  by (simp add: mag_def power_int_add)

lemma mag_eq_0_iff: "mag m e = 0 \<longleftrightarrow> m = 0"
  by (simp add: mag_def)

lemma mag_pos: "0 < m \<Longrightarrow> 0 < mag m e"
  by (simp add: mag_def)

lemma canonical_less:
  assumes "m < 2 ^ 53" "2 ^ 52 \<le> n" "e < f"
  shows "mag m e < mag n f"
proof -
  have "mag m e < 2 powi (e + 53)" using assms(1) by (rule mag_less_pow)
  also have "\<dots> \<le> 2 powi (f + 52)"
    using assms(3) by (intro power_int_increasing) simp_all
  also have "\<dots> = 2 ^ 52 * 2 powi f" using pow2_split [of f "f + 52"] by simp
  also have "\<dots> \<le> real n * 2 powi f"
  proof -
    from assms(2) have "real (2 ^ 52) \<le> real n" by (rule of_nat_le_iff [THEN iffD2])
    then show ?thesis by (intro mult_right_mono) simp_all
  qed
  finally show ?thesis by (simp add: mag_def)
qed

text \<open>A finite float is determined by its sign and its value.\<close>

lemma canonical_unique:
  assumes "is_float (Finite s m e)" "is_float (Finite t n f)" "mag m e = mag n f"
  shows "m = n \<and> e = f"
proof -
  have "\<not> e < f" using canonical_less [of m n e f] assms by auto
  moreover have "\<not> f < e" using canonical_less [of n m f e] assms by auto
  ultimately have "e = f" by simp
  with assms(3) show ?thesis by (simp add: mag_def)
qed

lemma fmul_finite_mono:
  assumes cf: "is_float (Finite sf mf ef)" and cg: "is_float (Finite sg mg eg)"
    and le: "fle (Finite sf mf ef) (Finite sg mg eg)" and mc: "0 < mc"
  shows "fle (fround sf (mf * mc) (ef + ec)) (fround sg (mg * mc) (eg + ec))"
proof -
  have v: "fval (Finite sf mf ef) \<le> fval (Finite sg mg eg)"
    using le by (simp only: fle_Finite_iff)
  have c: "0 < mag mc ec" using mc by (rule mag_pos)
  have step: "mag (a * mc) (ea + ec) < mag (b * mc) (eb + ec) \<or> (a * mc = b * mc \<and> ea + ec = eb + ec)"
    if "mag a ea \<le> mag b eb" "is_float (Finite sa a ea)" "is_float (Finite sb b eb)"
    for a b ea eb sa sb
  proof (cases "mag a ea = mag b eb")
    case True
    then have "a = b \<and> ea = eb" using that(2,3) canonical_unique by blast
    then show ?thesis by simp
  next
    case False
    with that(1) have "mag a ea < mag b eb" by simp
    then have "mag a ea * mag mc ec < mag b eb * mag mc ec" using c by simp
    then show ?thesis by (simp add: mag_mult)
  qed
  show ?thesis
  proof (cases sf; cases sg)
    assume s: "sf" "\<not> sg"
    then show ?thesis by (simp add: fround_neg_le_pos)
  next
    assume s: "\<not> sf" "sg"
    with v have "mag mf ef \<le> - mag mg eg" by simp
    with mag_nonneg [of mf ef] mag_nonneg [of mg eg] have "mag mf ef = 0" "mag mg eg = 0"
      by linarith+
    then have "mf = 0" "mg = 0" by (simp_all add: mag_eq_0_iff)
    then show ?thesis using s by (simp add: fround_zero signed_def)
  next
    assume s: "\<not> sf" "\<not> sg"
    with v have "mag mf ef \<le> mag mg eg" by simp
    then have "mag (mf * mc) (ef + ec) < mag (mg * mc) (eg + ec)
        \<or> (mf * mc = mg * mc \<and> ef + ec = eg + ec)"
      using cf cg by (rule step)
    then show ?thesis using s fround_mono(1) by simp
  next
    assume s: "sf" "sg"
    with v have "mag mg eg \<le> mag mf ef" by simp
    then have "mag (mg * mc) (eg + ec) < mag (mf * mc) (ef + ec)
        \<or> (mg * mc = mf * mc \<and> eg + ec = ef + ec)"
      using cg cf by (rule step)
    then show ?thesis using s fround_mono(2) by simp
  qed
qed

lemma fle_zero_iff:
  "fle (Finite False 0 z) c \<longleftrightarrow>
    (case c of Finite s m e \<Rightarrow> \<not> s \<or> m = 0 | Infinity s \<Rightarrow> \<not> s | NaN \<Rightarrow> False)"
  by (cases c) (auto simp add: signed_def Let_def zero_le_mult_iff)

lemma fle_not_nan: "fle x y \<Longrightarrow> \<not> is_nan x \<and> \<not> is_nan y"
  by (cases x; cases y) simp_all

lemma fle_sign_order:
  assumes "fle x y" "x = Infinity False \<or> (\<exists>m e. x = Finite False m e \<and> m \<noteq> 0)"
  shows "y = Infinity False \<or> (\<exists>m e. y = Finite False m e \<and> m \<noteq> 0)"
proof (cases y)
  case (Finite t n f)
  from assms(2) obtain m e where x: "x = Finite False m e" "m \<noteq> 0"
    using assms(1) Finite by (cases x) auto
  have "fval x \<le> fval y" using assms(1) unfolding x Finite by (simp only: fle_Finite_iff)
  moreover have "0 < fval x" using x by (simp add: mag_pos)
  ultimately have py: "0 < fval y" by linarith
  have "\<not> t" using py Finite mag_nonneg [of n f] by (cases t) auto
  moreover have "n \<noteq> 0"
  proof
    assume "n = 0"
    then have "fval y = 0" using Finite by (simp add: mag_def)
    with py show False by simp
  qed
  ultimately show ?thesis using Finite by simp
next
  case (Infinity t)
  with assms show ?thesis by (cases x) auto
next
  case NaN
  with assms(1) show ?thesis by (cases x) simp_all
qed

text \<open>
  Multiplication by a float that is \<open>>= 0\<close> keeps \<^verbatim>\<open><=\<close>, unless one of the products
  is a NaN.
\<close>

lemma fmul_mono:
  assumes ff: "is_float f" and fg: "is_float g"
    and le: "fle f g" and c0: "fle lit_0_0 c"
    and nf: "\<not> is_nan (fmul f c)" and ng: "\<not> is_nan (fmul g c)"
  shows "fle (fmul f c) (fmul g c)"
proof (cases c)
  case NaN
  with c0 show ?thesis by (simp add: lit_0_0_def)
next
  case (Infinity t)
  with c0 have c: "c = Infinity False" by (simp add: lit_0_0_def)
  have pos: "x = Infinity False \<or> (\<exists>m e. x = Finite False m e \<and> m \<noteq> 0)"
    if "fmul x c = Infinity False" "\<not> is_nan x" for x
    using that unfolding c by (cases x) (auto split: if_splits)
  have res: "fmul x c = Infinity True \<or> fmul x c = Infinity False" if "\<not> is_nan (fmul x c)" for x
    using that unfolding c by (cases x) (auto split: if_splits)
  show ?thesis
  proof (cases "fmul f c = Infinity True")
    case True
    then show ?thesis using ng by (simp add: fle_neg_infinity)
  next
    case False
    with res [OF nf] have fp: "fmul f c = Infinity False" by simp
    have "f = Infinity False \<or> (\<exists>m e. f = Finite False m e \<and> m \<noteq> 0)"
      using fp fle_not_nan [OF le] by (intro pos) simp_all
    with le have "g = Infinity False \<or> (\<exists>m e. g = Finite False m e \<and> m \<noteq> 0)"
      by (rule fle_sign_order)
    then have "fmul g c = Infinity False" unfolding c by auto
    then show ?thesis using nf by (simp add: fle_pos_infinity)
  qed
next
  case (Finite sc mc ec)
  with c0 have sign: "\<not> sc \<or> mc = 0" by (simp add: lit_0_0_def fle_zero_iff del: fle.simps)
  show ?thesis
  proof (cases "mc = 0")
    case True
    have z: "\<exists>s. fmul x c = Finite s 0 (- 1074)" if "\<not> is_nan (fmul x c)" for x
      using that unfolding Finite True by (cases x) (auto simp add: fround_zero)
    from z [OF nf] z [OF ng] show ?thesis by (auto simp add: signed_def)
  next
    case False
    with sign have sc: "\<not> sc" and mc: "0 < mc" by simp_all
    show ?thesis
    proof (cases f)
      case NaN
      with le show ?thesis by simp
    next
      case fi: (Infinity s)
      show ?thesis
      proof (cases g)
        case NaN
        with le show ?thesis using fi by simp
      next
        case (Infinity t)
        with le fi show ?thesis unfolding Finite using sc mc by simp
      next
        case gf: (Finite t n k)
        with le fi have "s" by simp
        then have "fmul f c = Infinity True" unfolding fi Finite using sc mc by simp
        then show ?thesis using ng by (simp add: fle_neg_infinity)
      qed
    next
      case ff': (Finite s m e)
      show ?thesis
      proof (cases g)
        case NaN
        with le show ?thesis using ff' by simp
      next
        case (Infinity t)
        with le ff' have "\<not> t" by simp
        then have "fmul g c = Infinity False" unfolding Infinity Finite using sc mc by simp
        then show ?thesis using nf by (simp add: fle_pos_infinity)
      next
        case gf: (Finite t n k)
        have "fle (fround s (m * mc) (e + ec)) (fround t (n * mc) (k + ec))"
          using ff fg le mc unfolding ff' gf by (rule fmul_finite_mono)
        then show ?thesis unfolding ff' gf Finite using sc by simp
      qed
    qed
  qed
qed

subsection \<open>Further properties of the product\<close>


lemma fmul_nan_iff:
  "is_nan (fmul x y) \<longleftrightarrow>
     is_nan x \<or> is_nan y \<or> (is_zero x \<and> is_infinite y) \<or> (is_infinite x \<and> is_zero y)"
  by (cases x; cases y) (simp_all add: fround_not_nan)

lemma fmul_finite_value:
  assumes "fmul (Finite s m e) (Finite t n k) = Finite u q d"
  shows "u = (s \<noteq> t) \<and> round_sig (m * n) (e + k) = (q, d)"
  using assms by (cases "round_sig (m * n) (e + k)") (auto simp add: fround_def split: if_splits)

text \<open>A finite product is a float nearest the exact product of the two values.\<close>

lemma fmul_correctly_rounded:
  assumes fin: "is_finite (fmul x y)" and r: "is_float r" "is_finite r"
  shows "\<bar>fval (fmul x y) - fval x * fval y\<bar> \<le> \<bar>fval r - fval x * fval y\<bar>"
proof -
  from fin obtain s m e where x: "x = Finite s m e" by (cases x; cases y) (auto split: if_splits)
  from fin obtain t n k where y: "y = Finite t n k" by (cases x; cases y) (auto split: if_splits)
  from fin obtain u q d where p: "fmul x y = Finite u q d" by (cases "fmul x y") auto
  from r obtain w m' e' where r': "r = Finite w m' e'" by (cases r) auto
  have u: "u = (s \<noteq> t)" and rs: "round_sig (m * n) (e + k) = (q, d)"
    using p fmul_finite_value unfolding x y by blast+
  have m': "m' < 2 ^ 53" "- 1074 \<le> e'" using r(1) unfolding r' by simp_all
  define X where "X = mag (m * n) (e + k)"
  have near: "\<bar>X - mag q d\<bar> \<le> \<bar>X - mag m' e'\<bar>"
    unfolding X_def using rs m' by (rule round_sig_nearest)
  have "\<bar>X - mag q d\<bar> \<le> \<bar>X - mag 0 (- 1074)\<bar>"
    unfolding X_def using rs by (rule round_sig_nearest) simp_all
  then have near0: "\<bar>X - mag q d\<bar> \<le> X" by (simp add: mag_def X_def)
  have prod: "fval x * fval y = (if u then - X else X)"
    unfolding x y X_def u by (simp add: mag_mult)
  have res: "fval (fmul x y) = (if u then - mag q d else mag q d)"
    unfolding p by simp
  have rv: "fval r = (if w then - mag m' e' else mag m' e')" unfolding r' by simp
  show ?thesis
    unfolding prod res rv using near near0 mag_nonneg [of m' e'] mag_nonneg [of q d]
    by (cases u; cases w; simp; linarith)
qed

lemma feq_zero_iff: "feq c lit_0_0 \<longleftrightarrow> is_zero c"
  by (cases c) (auto simp add: lit_0_0_def signed_def Let_def)

lemma fmul_zero_right:
  assumes "is_zero c" "is_finite f"
  shows "is_zero (fmul f c)"
  using assms by (cases c; cases f) (simp_all add: fround_zero)

section \<open>Construction\<close>

text \<open>
  C1: whatever floats are passed, the constructor stores as \<open>min_depth_of_discharge\<close> the
  float product of the fraction passed (or its default) and the capacity (or its default),
  and the same for \<open>max_depth_of_discharge\<close>. When that product is finite it is a float
  nearest the exact product of the two values: no finite float is nearer. With
  \<open>capacity=100.0\<close>, \<open>min_depth_of_discharge=0.1\<close> and \<open>max_depth_of_discharge=0.97\<close> the
  stored values, and the values \<open>get_parameters\<close> reports, are \<open>10.0\<close> and \<open>97.0\<close>.
\<close>

theorem init_depth_of_discharge_product:
  "min_depth_of_discharge (Battery_init cc c cpl dpl ce de f g)
     = fmul (kwarg lit_0_1 f) (kwarg lit_0_0 c)
   \<and> max_depth_of_discharge (Battery_init cc c cpl dpl ce de f g)
     = fmul (kwarg lit_0_97 g) (kwarg lit_0_0 c)
   \<and> min_depth_of_discharge (Battery_init cc (Some x) cpl dpl ce de (Some lo) (Some hi))
     = fmul lo x
   \<and> max_depth_of_discharge (Battery_init cc (Some x) cpl dpl ce de (Some lo) (Some hi))
     = fmul hi x
   \<and> (is_finite (fmul lo x) \<and> is_float r \<and> is_finite r \<longrightarrow>
        \<bar>fval (min_depth_of_discharge
               (Battery_init cc (Some x) cpl dpl ce de (Some lo) (Some hi)))
          - fval lo * fval x\<bar> \<le> \<bar>fval r - fval lo * fval x\<bar>)
   \<and> (is_finite (fmul hi x) \<and> is_float r \<and> is_finite r \<longrightarrow>
        \<bar>fval (max_depth_of_discharge
               (Battery_init cc (Some x) cpl dpl ce de (Some lo) (Some hi)))
          - fval hi * fval x\<bar> \<le> \<bar>fval r - fval hi * fval x\<bar>)
   \<and> min_depth_of_discharge
        (Battery_init None (Some lit_100_0) None None None None (Some lit_0_1) (Some lit_0_97))
       = lit_10_0
   \<and> max_depth_of_discharge
        (Battery_init None (Some lit_100_0) None None None None (Some lit_0_1) (Some lit_0_97))
       = lit_97_0
   \<and> map_of (fst (get_parameters
        (Battery_init None (Some lit_100_0) None None None None (Some lit_0_1) (Some lit_0_97))))
        ''min_depth_of_discharge'' = Some lit_10_0
   \<and> map_of (fst (get_parameters
        (Battery_init None (Some lit_100_0) None None None None (Some lit_0_1) (Some lit_0_97))))
        ''max_depth_of_discharge'' = Some lit_97_0"
  using fmul_correctly_rounded [of lo x r] fmul_correctly_rounded [of hi x r]
  by (simp add: Battery_init_def Let_def get_parameters_def fmul_example_100)

text \<open>
  The rounding part of C1 at \<open>0.1 * 100.0\<close> and \<open>0.97 * 100.0\<close>: each stored bound is
  at least as near the exact product as the float \<open>10.0\<close> is.
\<close>

theorem init_depth_of_discharge_product_witness:
  "is_finite (fmul lit_0_1 lit_100_0) \<and> is_finite (fmul lit_0_97 lit_100_0)
   \<and> is_float lit_10_0 \<and> is_finite lit_10_0
   \<and> \<bar>fval (min_depth_of_discharge
          (Battery_init None (Some lit_100_0) None None None None (Some lit_0_1) (Some lit_0_97)))
        - fval lit_0_1 * fval lit_100_0\<bar> \<le> \<bar>fval lit_10_0 - fval lit_0_1 * fval lit_100_0\<bar>
   \<and> \<bar>fval (max_depth_of_discharge
          (Battery_init None (Some lit_100_0) None None None None (Some lit_0_1) (Some lit_0_97)))
        - fval lit_0_97 * fval lit_100_0\<bar> \<le> \<bar>fval lit_10_0 - fval lit_0_97 * fval lit_100_0\<bar>"
proof -
  have h: "is_finite (fmul lit_0_1 lit_100_0)" "is_finite (fmul lit_0_97 lit_100_0)"
    "is_float lit_10_0" "is_finite lit_10_0"
    by (simp_all add: fmul_example_100) (simp_all add: literal_defs)
  note t = init_depth_of_discharge_product
    [where x = lit_100_0 and lo = lit_0_1 and hi = lit_0_97 and r = lit_10_0 and cc = None
       and cpl = None and dpl = None and ce = None and de = None]
  show ?thesis using t h by blast
qed

text \<open>
  C3: constructing a Battery with no arguments gives \<open>current_charge=0.0\<close>,
  \<open>capacity=0.0\<close>, \<open>charging_power_limit=1.0\<close>, \<open>discharging_power_limit=1.0\<close>,
  \<open>charging_efficiency=0.95\<close>, \<open>discharging_efficiency=0.95\<close>,
  \<open>min_depth_of_discharge=0.0\<close> and \<open>max_depth_of_discharge=0.0\<close>: the two products with
  the default capacity \<open>0.0\<close> are \<open>0.0\<close>.
\<close>

theorem init_defaults:
  "Battery_init None None None None None None None None =
     \<lparr> current_charge = lit_0_0, capacity = lit_0_0,
       charging_power_limit = lit_1_0, discharging_power_limit = lit_1_0,
       charging_efficiency = lit_0_95, discharging_efficiency = lit_0_95,
       min_depth_of_discharge = lit_0_0, max_depth_of_discharge = lit_0_0 \<rparr>"
  by (simp add: Battery_init_def Let_def fmul_zero_capacity_defaults)

text \<open>
  C6: the six attributes other than the two depth-of-discharge bounds are stored exactly as
  they are passed, whatever the other arguments are.
\<close>

theorem init_stores_other_fields:
  "current_charge (Battery_init (Some cc) c cpl dpl ce de f g) = cc
   \<and> capacity (Battery_init cc' (Some c') cpl dpl ce de f g) = c'
   \<and> charging_power_limit (Battery_init cc' c (Some cpl') dpl ce de f g) = cpl'
   \<and> discharging_power_limit (Battery_init cc' c cpl (Some dpl') ce de f g) = dpl'
   \<and> charging_efficiency (Battery_init cc' c cpl dpl (Some ce') de f g) = ce'
   \<and> discharging_efficiency (Battery_init cc' c cpl dpl ce (Some de') f g) = de'"
  by (simp add: Battery_init_def Let_def)


text \<open>
  C4, as amended: the constructor accepts any floats. When the capacity is zero (\<open>0.0\<close>
  or \<open>-0.0\<close>, passed or by default) and both fractions are finite, both stored bounds
  equal \<open>0\<close> (as \<open>0.0\<close> or \<open>-0.0\<close>). A negative capacity does not make the bounds
  \<open>0\<close>: they are the products, \<open>-10.0\<close> and \<open>-97.0\<close> for \<open>capacity=-100.0\<close> with the
  default fractions.
\<close>

theorem zero_capacity_zero_bounds:
  assumes "feq (kwarg lit_0_0 c) lit_0_0"
    and "is_finite (kwarg lit_0_1 f)" and "is_finite (kwarg lit_0_97 g)"
  shows "feq (min_depth_of_discharge (Battery_init cc c cpl dpl ce de f g)) lit_0_0
    \<and> feq (max_depth_of_discharge (Battery_init cc c cpl dpl ce de f g)) lit_0_0
    \<and> min_depth_of_discharge
         (Battery_init None (Some (fneg lit_100_0)) None None None None None None)
        = fneg lit_10_0
    \<and> max_depth_of_discharge
         (Battery_init None (Some (fneg lit_100_0)) None None None None None None)
        = fneg lit_97_0"
  using assms fmul_zero_right
  by (simp add: Battery_init_def Let_def feq_zero_iff fmul_example_neg_100)

text \<open>
  The zero case of C4 at \<open>capacity=-0.0\<close>, the default minimum fraction and a maximum
  fraction of \<open>100.0\<close>.
\<close>

theorem zero_capacity_zero_bounds_witness:
  "feq (kwarg lit_0_0 (Some (fneg lit_0_0))) lit_0_0
   \<and> is_finite (kwarg lit_0_1 None) \<and> is_finite (kwarg lit_0_97 (Some lit_100_0))
   \<and> feq (min_depth_of_discharge
        (Battery_init None (Some (fneg lit_0_0)) None None None None None (Some lit_100_0))) lit_0_0
   \<and> feq (max_depth_of_discharge
        (Battery_init None (Some (fneg lit_0_0)) None None None None None (Some lit_100_0))) lit_0_0"
proof -
  have h: "feq (kwarg lit_0_0 (Some (fneg lit_0_0))) lit_0_0"
    "is_finite (kwarg lit_0_1 None)" "is_finite (kwarg lit_0_97 (Some lit_100_0))"
    by (simp_all add: literal_defs signed_def)
  from zero_capacity_zero_bounds [OF h] show ?thesis using h by simp
qed

text \<open>
  C4 as first stated fails: \<open>capacity=-100.0\<close> is negative and the bounds stored for the
  fractions \<open>0.1\<close> and \<open>0.97\<close> are not \<open>0\<close>; and with \<open>capacity=0.0\<close> an infinite
  fraction stores a NaN, which equals nothing.
\<close>

theorem zero_bounds_counterexample:
  "fle (fneg lit_100_0) lit_0_0
   \<and> \<not> feq (min_depth_of_discharge
        (Battery_init None (Some (fneg lit_100_0)) None None None None
           (Some lit_0_1) (Some lit_0_97))) lit_0_0
   \<and> \<not> feq (max_depth_of_discharge
        (Battery_init None (Some (fneg lit_100_0)) None None None None
           (Some lit_0_1) (Some lit_0_97))) lit_0_0
   \<and> fle lit_0_0 lit_0_0
   \<and> \<not> feq (max_depth_of_discharge
        (Battery_init None (Some lit_0_0) None None None None
           (Some lit_0_1) (Some float_inf))) lit_0_0"
  by (simp add: Battery_init_def Let_def fmul_example_neg_100 fmul_example_nan)
     (simp add: literal_defs signed_def)

section \<open>The query\<close>

text \<open>
  C2: the mapping \<open>get_parameters\<close> returns has exactly the eight keys
  \<open>current_charge\<close>, \<open>capacity\<close>, \<open>charging_power_limit\<close>, \<open>discharging_power_limit\<close>,
  \<open>charging_efficiency\<close>, \<open>discharging_efficiency\<close>, \<open>min_depth_of_discharge\<close> and
  \<open>max_depth_of_discharge\<close>, each once, and each mapped to the current value of the
  attribute of that name.
\<close>

theorem get_parameters_keys:
  "map fst (fst (get_parameters self)) =
     [''current_charge'', ''capacity'', ''charging_power_limit'', ''discharging_power_limit'',
      ''charging_efficiency'', ''discharging_efficiency'', ''min_depth_of_discharge'',
      ''max_depth_of_discharge'']
   \<and> distinct (map fst (fst (get_parameters self)))
   \<and> card (dom (map_of (fst (get_parameters self)))) = 8
   \<and> map_of (fst (get_parameters self)) ''current_charge'' = Some (current_charge self)
   \<and> map_of (fst (get_parameters self)) ''capacity'' = Some (capacity self)
   \<and> map_of (fst (get_parameters self)) ''charging_power_limit''
       = Some (charging_power_limit self)
   \<and> map_of (fst (get_parameters self)) ''discharging_power_limit''
       = Some (discharging_power_limit self)
   \<and> map_of (fst (get_parameters self)) ''charging_efficiency''
       = Some (charging_efficiency self)
   \<and> map_of (fst (get_parameters self)) ''discharging_efficiency''
       = Some (discharging_efficiency self)
   \<and> map_of (fst (get_parameters self)) ''min_depth_of_discharge''
       = Some (min_depth_of_discharge self)
   \<and> map_of (fst (get_parameters self)) ''max_depth_of_discharge''
       = Some (max_depth_of_discharge self)"
  by (simp add: get_parameters_def)

text \<open>
  C5: \<open>get_parameters\<close> reads the attributes at the time of the call. After an assignment
  to any attribute, also one that follows an earlier call, the mapping returned has the new
  value under that attribute's key, and the other keys are as they were.
\<close>

theorem get_parameters_fresh_snapshot:
  "map_of (fst (get_parameters (set_attr a v (snd (get_parameters self))))) (attr_name a)
     = Some v
   \<and> map_of (fst (get_parameters (set_attr a v self)))
     = (map_of (fst (get_parameters self)))(attr_name a \<mapsto> v)"
  by (cases a) (auto simp add: get_parameters_def fun_eq_iff)

text \<open>
  C7: two calls of \<open>get_parameters\<close> with no assignment between them return equal
  mappings: the same keys, each with the same float.
\<close>

theorem get_parameters_idempotent:
  "fst (get_parameters (snd (get_parameters self))) = fst (get_parameters self)"
  by (simp add: get_parameters_def)

text \<open>
  C9: a call of \<open>get_parameters\<close> leaves the object as it was: each of the eight
  attributes has the value it had before. The call is defined on every Battery.
\<close>

theorem get_parameters_no_side_effect:
  "snd (get_parameters self) = self
   \<and> get_attr a (snd (get_parameters self)) = get_attr a self"
  by (simp add: get_parameters_def)

section \<open>The ordering of the two bounds\<close>

text \<open>
  C10, as amended: when the minimum fraction is \<open><=\<close> the maximum fraction, the capacity is
  \<open>>= 0\<close> and neither stored bound is a NaN (a NaN is stored only for a zero multiplied by
  an infinity), the constructed Battery has
  \<open>min_depth_of_discharge <= max_depth_of_discharge\<close>. A call of \<open>get_parameters\<close> keeps
  that ordering, on any Battery.
\<close>

theorem init_bounds_ordered:
  assumes "is_float (kwarg lit_0_1 f)" and "is_float (kwarg lit_0_97 g)"
    and "fle (kwarg lit_0_1 f) (kwarg lit_0_97 g)"
    and "fle lit_0_0 (kwarg lit_0_0 c)"
    and "\<not> is_nan (min_depth_of_discharge (Battery_init cc c cpl dpl ce de f g))"
    and "\<not> is_nan (max_depth_of_discharge (Battery_init cc c cpl dpl ce de f g))"
  shows "dod_ordered (Battery_init cc c cpl dpl ce de f g)
    \<and> dod_ordered (snd (get_parameters (Battery_init cc c cpl dpl ce de f g)))
    \<and> dod_ordered (snd (get_parameters self)) = dod_ordered self"
  using assms fmul_mono [of "kwarg lit_0_1 f" "kwarg lit_0_97 g" "kwarg lit_0_0 c"]
  by (simp add: dod_ordered_def Battery_init_def Let_def get_parameters_def)

text \<open>C10 at \<open>capacity=100.0\<close> with the default fractions \<open>0.1\<close> and \<open>0.97\<close>.\<close>

theorem init_bounds_ordered_witness:
  "is_float (kwarg lit_0_1 None) \<and> is_float (kwarg lit_0_97 None)
   \<and> fle (kwarg lit_0_1 None) (kwarg lit_0_97 None)
   \<and> fle lit_0_0 (kwarg lit_0_0 (Some lit_100_0))
   \<and> \<not> is_nan (min_depth_of_discharge
         (Battery_init None (Some lit_100_0) None None None None None None))
   \<and> \<not> is_nan (max_depth_of_discharge
         (Battery_init None (Some lit_100_0) None None None None None None))
   \<and> dod_ordered (Battery_init None (Some lit_100_0) None None None None None None)
   \<and> dod_ordered (snd (get_parameters
         (Battery_init None (Some lit_100_0) None None None None None None)))"
proof -
  have h: "is_float (kwarg lit_0_1 None)" "is_float (kwarg lit_0_97 None)"
    "fle (kwarg lit_0_1 None) (kwarg lit_0_97 None)"
    "fle lit_0_0 (kwarg lit_0_0 (Some lit_100_0))"
    by (simp_all add: literal_defs signed_def)
  have n: "\<not> is_nan (min_depth_of_discharge
         (Battery_init None (Some lit_100_0) None None None None None None))"
    "\<not> is_nan (max_depth_of_discharge
         (Battery_init None (Some lit_100_0) None None None None None None))"
    by (simp_all add: Battery_init_def Let_def fmul_example_100) (simp_all add: literal_defs)
  from init_bounds_ordered [OF h n] show ?thesis using h n by simp
qed

text \<open>
  C10 as first stated fails: with \<open>capacity=0.0\<close>, a minimum fraction of \<open>1.0\<close> and a
  maximum fraction of \<open>float('inf')\<close> the stored maximum is \<open>inf * 0.0\<close>, a NaN, and
  \<open>0.0 <= nan\<close> is false.
\<close>

theorem bounds_ordered_counterexample:
  "is_float lit_1_0 \<and> is_float float_inf
   \<and> fle lit_1_0 float_inf \<and> fle lit_0_0 lit_0_0
   \<and> \<not> dod_ordered (Battery_init None (Some lit_0_0) None None None None
          (Some lit_1_0) (Some float_inf))"
  by (simp add: dod_ordered_def Battery_init_def Let_def fmul_example_nan)
     (simp add: literal_defs signed_def)

end
